theory Spec2Isabelle
  imports Main "HOL-Library.Word" "HOL-Library.Monad_Syntax"
begin

unbundle bit_operations_syntax

section \<open>The satellite packetizer (satellite\_packetizer.c)\<close>

text \<open>
  A shallow embedding of the AX.25 / FX.25 / KISS pipeline of \<^verbatim>\<open>satellite_packetizer.c\<close>.

  \<^item> \<^verbatim>\<open>uint8_t\<close> is \<open>8 word\<close>, \<^verbatim>\<open>uint16_t\<close> is \<open>16 word\<close>; where C promotes an operand
    to \<^verbatim>\<open>int\<close> before shifting, the model computes in \<open>32 word\<close> and truncates on the store.
  \<^item> An array reached through a pointer is the list of the bytes from that pointer to
    the end of the array. Lengths and positions passed as \<^verbatim>\<open>int\<close> stay separate
    \<open>int\<close> parameters, as in the source.
  \<^item> A function that writes through a pointer returns the updated array.
  \<^item> An access outside an array is undefined behaviour in C. The model returns \<open>None\<close>
    there; \<open>Some\<close> carries the result of a defined run. The error return \<^verbatim>\<open>0\<close> of the
    source is an ordinary result, \<open>Some (0, _)\<close>.
  \<^item> An output stream is the list of the bytes written to it so far; an input stream is
    the list of the bytes not yet read.
\<close>

type_synonym u8 = "8 word"
type_synonym u16 = "16 word"
type_synonym u32 = "32 word"

subsection \<open>Constants\<close>

definition AX25_CONTROL :: u8 where "AX25_CONTROL = 0x03"
definition PID_NOL3 :: u8 where "PID_NOL3 = 0xF0"

definition FX25_K :: int where "FX25_K = 223"
definition FX25_N :: int where "FX25_N = 255"
definition CORR_TAG :: "u8 list" where
  "CORR_TAG = [0xCC, 0x8F, 0x8A, 0xE4, 0x85, 0xE2, 0x98, 0x01]"

definition KISS_FEND :: u8 where "KISS_FEND = 0xC0"
definition KISS_FESC :: u8 where "KISS_FESC = 0xDB"
definition KISS_TFEND :: u8 where "KISS_TFEND = 0xDC"
definition KISS_TFESC :: u8 where "KISS_TFESC = 0xDD"
definition KISS_CMD_DATA :: u8 where "KISS_CMD_DATA = 0x00"

definition MAX_PAYLOAD :: int where "MAX_PAYLOAD = 150"

subsection \<open>The Reed-Solomon encoder\<close>

text \<open>
  The encoder handle belongs to libfec (\<^verbatim>\<open>fec.h\<close>), which is not part of the source. It
  is a parameter of the model: the function that gives, for the 223 data bytes of a block,
  the parity byte at each of the 32 parity positions.
\<close>

record fx25_encoder_t =
  rs_handle :: "u8 list \<Rightarrow> nat \<Rightarrow> u8"

text \<open>
  Modelled from the spec: \<^verbatim>\<open>encode_rs_char\<close> is a function of libfec, missing from the
  source. The specification says that the encoder "computes 32 systematic Reed-Solomon
  parity bytes over the 223-byte data region [...] and writes them into the reserved
  region": the data region of the 255-byte block stays, the 32 bytes after it become the
  parity bytes.
\<close>

definition encode_rs_char :: "(u8 list \<Rightarrow> nat \<Rightarrow> u8) \<Rightarrow> u8 list \<Rightarrow> u8 list" where
  "encode_rs_char handle rs_block =
     take 223 rs_block @ map (handle (take 223 rs_block)) [0..<32]"

subsection \<open>Memory and stream primitives\<close>

text \<open>\<^verbatim>\<open>a[i] = v\<close>\<close>

definition store :: "u8 list \<Rightarrow> int \<Rightarrow> u8 \<Rightarrow> u8 list option" where
  "store a i v = (if 0 \<le> i \<and> nat i < length a then Some (a[nat i := v]) else None)"

text \<open>
  \<^verbatim>\<open>memcpy(&dst[off], src, n)\<close>: a negative \<^verbatim>\<open>int\<close> count converts to a huge
  \<^verbatim>\<open>size_t\<close>, which no array holds.
\<close>

definition memcpy :: "u8 list \<Rightarrow> int \<Rightarrow> u8 list \<Rightarrow> int \<Rightarrow> u8 list option" where
  "memcpy dst off src n =
     (if 0 \<le> off \<and> 0 \<le> n \<and> nat n \<le> length src \<and> nat off + nat n \<le> length dst
      then Some (take (nat off) dst @ take (nat n) src @ drop (nat off + nat n) dst)
      else None)"

text \<open>\<^verbatim>\<open>memset(a, c, n)\<close> on a local array of \<open>n\<close> bytes.\<close>

definition memset :: "u8 \<Rightarrow> int \<Rightarrow> u8 list" where
  "memset c n = replicate (nat n) c"

text \<open>
  Passing \<^verbatim>\<open>&a[pos]\<close> to a function \<open>f\<close> that writes through the pointer: \<open>f\<close> sees the
  array from \<open>pos\<close> on, the bytes before \<open>pos\<close> stay.
\<close>

definition at_offset :: "u8 list \<Rightarrow> int \<Rightarrow> (u8 list \<Rightarrow> u8 list option) \<Rightarrow> u8 list option" where
  "at_offset a pos f =
     (if 0 \<le> pos \<and> nat pos \<le> length a
      then map_option (\<lambda>r. take (nat pos) a @ r) (f (drop (nat pos) a))
      else None)"

text \<open>\<^verbatim>\<open>fputc(c, stream)\<close>\<close>

definition fputc :: "u8 \<Rightarrow> u8 list \<Rightarrow> u8 list" where
  "fputc c stream = stream @ [c]"

text \<open>
  \<^verbatim>\<open>fread(ptr, 1, nmemb, stream)\<close>: reads as many bytes as the stream still has, at most
  \<open>nmemb\<close>; returns the count, the array and the rest of the stream.
\<close>

definition fread :: "u8 list \<Rightarrow> int \<Rightarrow> u8 list \<Rightarrow> (int \<times> u8 list \<times> u8 list) option" where
  "fread ptr nmemb stream =
     (let n = min (nat nmemb) (length stream)
      in if n \<le> length ptr
         then Some (int n, take n stream @ drop n ptr, drop n stream)
         else None)"

subsection \<open>Low-level utility functions\<close>

text \<open>
  \<^verbatim>\<open>encode_address\<close>, the loop over the six callsign positions. The shifted character is
  an \<^verbatim>\<open>int\<close>, truncated to a byte by the store into \<^verbatim>\<open>out[i]\<close>.
\<close>

function encode_address_loop :: "string \<Rightarrow> u8 list \<Rightarrow> nat \<Rightarrow> u8 list" where
  "encode_address_loop call out i =
     (if i < 6
      then encode_address_loop call
             (out[i := ucast (if i < length call
                              then push_bit 1 (ucast (of_char (call ! i) :: u8) :: u32)
                              else push_bit 1 (ucast (of_char CHR '' '' :: u8) :: u32))])
             (i + 1)
      else out)"
  by pat_completeness auto
termination
  by (relation "measure (\<lambda>(call, out, i). 6 - i)") auto

definition encode_address :: "string \<Rightarrow> u8 \<Rightarrow> u8 list \<Rightarrow> int \<Rightarrow> u8 list option" where
  "encode_address call ssid out last_addr =
     (if length out < 7 then None
      else Some ((encode_address_loop call out 0)
                   [6 := ucast (push_bit 1 (ucast ssid :: u32) OR 0x60
                                OR (if last_addr \<noteq> 0 then 1 else 0))]))"

text \<open>\<^verbatim>\<open>calculate_crc\<close>: one step of the inner loop, the inner loop, the outer loop.\<close>

definition crc_step :: "u16 \<Rightarrow> u16" where
  "crc_step crc =
     (if crc AND 0x8000 \<noteq> 0 then push_bit 1 crc XOR 0x1021 else push_bit 1 crc)"

function crc_bits :: "nat \<Rightarrow> u16 \<Rightarrow> u16" where
  "crc_bits j crc = (if j < 8 then crc_bits (j + 1) (crc_step crc) else crc)"
  by pat_completeness auto
termination
  by (relation "measure (\<lambda>(j, crc). 8 - j)") auto

fun crc_bytes :: "u8 list \<Rightarrow> u16 \<Rightarrow> u16" where
  "crc_bytes [] crc = crc"
| "crc_bytes (d # ds) crc = crc_bytes ds (crc_bits 0 (crc XOR push_bit 8 (ucast d)))"

definition calculate_crc :: "u8 list \<Rightarrow> int \<Rightarrow> u16 option" where
  "calculate_crc data len =
     (if nat len \<le> length data
      then Some (crc_bytes (take (nat len) data) 0xFFFF XOR 0xFFFF)
      else None)"

subsection \<open>Station addresses\<close>

text \<open>
  \<^verbatim>\<open>ax25_address_t\<close>: the callsign is a C string, modelled by the list of its characters
  before the terminating NUL, so that \<^verbatim>\<open>strlen\<close> is \<open>length\<close> (as for the \<open>call\<close>
  parameter of \<open>encode_address\<close> above).
\<close>

record ax25_address_t =
  call :: string
  ssid :: u8

subsection \<open>FX.25 module\<close>

definition fx25_encode_frame ::
  "fx25_encoder_t \<Rightarrow> u8 list \<Rightarrow> int \<Rightarrow> u8 list \<Rightarrow> (int \<times> u8 list) option" where
  "fx25_encode_frame encoder ax25_frame ax25_len fx25_frame_out =
     (if ax25_len > FX25_K then Some (0, fx25_frame_out)
      else do {
        out1 \<leftarrow> memcpy fx25_frame_out 0 CORR_TAG 8;
        let rs_block = memset 0 FX25_N;
        rs_block \<leftarrow> memcpy rs_block 0 ax25_frame ax25_len;
        let rs_block = encode_rs_char (rs_handle encoder) rs_block;
        out2 \<leftarrow> memcpy out1 8 rs_block FX25_N;
        Some (8 + FX25_N, out2)
      })"

subsection \<open>AX.25 module\<close>

definition ax25_generate_ui_frame ::
  "u8 list \<Rightarrow> ax25_address_t \<Rightarrow> ax25_address_t \<Rightarrow> u8 list \<Rightarrow> int \<Rightarrow> (int \<times> u8 list) option" where
  "ax25_generate_ui_frame frame_buffer dest src payload payload_len =
     do {
       let pos = 0;
       fb \<leftarrow> at_offset frame_buffer pos (\<lambda>out. encode_address (call dest) (ssid dest) out 0);
       let pos = pos + 7;
       fb \<leftarrow> at_offset fb pos (\<lambda>out. encode_address (call src) (ssid src) out 1);
       let pos = pos + 7;
       fb \<leftarrow> store fb pos AX25_CONTROL;
       let pos = pos + 1;
       fb \<leftarrow> store fb pos PID_NOL3;
       let pos = pos + 1;
       fb \<leftarrow> memcpy fb pos payload payload_len;
       let pos = pos + payload_len;
       fcs \<leftarrow> calculate_crc fb pos;
       fb \<leftarrow> store fb pos (ucast (fcs AND 0xFF));
       let pos = pos + 1;
       fb \<leftarrow> store fb pos (ucast (drop_bit 8 fcs AND 0xFF));
       let pos = pos + 1;
       Some (pos, fb)
     }"

subsection \<open>KISS module\<close>

text \<open>The escaping loop of \<^verbatim>\<open>write_kiss_frame\<close>, over the frame bytes still to be written.\<close>

fun kiss_loop :: "u8 list \<Rightarrow> u8 list \<Rightarrow> u8 list" where
  "kiss_loop stream [] = stream"
| "kiss_loop stream (b # bs) =
     kiss_loop
       (if b = KISS_FEND then fputc KISS_TFEND (fputc KISS_FESC stream)
        else if b = KISS_FESC then fputc KISS_TFESC (fputc KISS_FESC stream)
        else fputc b stream)
       bs"

definition write_kiss_frame :: "u8 list \<Rightarrow> u8 list \<Rightarrow> int \<Rightarrow> u8 list option" where
  "write_kiss_frame stream frame len =
     (if nat len \<le> length frame
      then Some (fputc KISS_FEND
                   (kiss_loop (fputc KISS_CMD_DATA (fputc KISS_FEND stream))
                      (take (nat len) frame)))
      else None)"

subsection \<open>Main processing loop\<close>

record driver_state =
  input_file :: "u8 list"
  output_file :: "u8 list"
  payload_buffer :: "u8 list"
  ax25_buffer :: "u8 list"
  fx25_buffer :: "u8 list"
  packet_count :: int

text \<open>Steps A to C of the loop body; each \<^verbatim>\<open>continue\<close> leaves with the state so far.\<close>

definition loop_body ::
  "fx25_encoder_t \<Rightarrow> ax25_address_t \<Rightarrow> ax25_address_t \<Rightarrow> int \<Rightarrow> driver_state
     \<Rightarrow> driver_state option" where
  "loop_body encoder dest_addr src_addr bytes_read s =
     do {
       (ax25_len, ab) \<leftarrow>
         ax25_generate_ui_frame (ax25_buffer s) dest_addr src_addr (payload_buffer s) bytes_read;
       let s = s\<lparr>ax25_buffer := ab\<rparr>;
       if ax25_len = 0 then Some s
       else do {
         (fx25_len, fb) \<leftarrow> fx25_encode_frame encoder (ax25_buffer s) ax25_len (fx25_buffer s);
         let s = s\<lparr>fx25_buffer := fb\<rparr>;
         if fx25_len = 0 then Some s
         else do {
           out \<leftarrow> write_kiss_frame (output_file s) (fx25_buffer s) fx25_len;
           Some (s\<lparr>output_file := out, packet_count := packet_count s + 1\<rparr>)
         }
       }
     }"

lemma loop_body_input_file:
  "loop_body encoder dest_addr src_addr bytes_read s = Some s' \<Longrightarrow> input_file s' = input_file s"
  by (auto simp: loop_body_def Let_def split: Option.bind_splits if_splits prod.splits)

lemma fread_shrinks:
  "fread ptr nmemb stream = Some (bytes_read, ptr', stream') \<Longrightarrow> 0 < bytes_read
     \<Longrightarrow> length stream' < length stream"
  by (auto simp: fread_def Let_def split: if_splits)

function main_loop ::
  "fx25_encoder_t \<Rightarrow> ax25_address_t \<Rightarrow> ax25_address_t \<Rightarrow> driver_state \<Rightarrow> driver_state option" where
  "main_loop encoder dest_addr src_addr s =
     (case fread (payload_buffer s) MAX_PAYLOAD (input_file s) of
        None \<Rightarrow> None
      | Some (bytes_read, pb, inp) \<Rightarrow>
          if bytes_read > 0
          then (case loop_body encoder dest_addr src_addr bytes_read
                       (s\<lparr>payload_buffer := pb, input_file := inp\<rparr>) of
                  None \<Rightarrow> None
                | Some s' \<Rightarrow> main_loop encoder dest_addr src_addr s')
          else Some (s\<lparr>payload_buffer := pb, input_file := inp\<rparr>))"
  by pat_completeness auto
termination
proof (relation "measure (\<lambda>(encoder, dest_addr, src_addr, s). length (input_file s))", goal_cases)
  case 1
  show ?case by simp
next
  case (2 encoder dest_addr src_addr s x2 bytes_read y pb inp s')
  then show ?case
    by (auto dest!: loop_body_input_file fread_shrinks)
qed


section \<open>Wire formats\<close>

text \<open>
  The byte layouts of section 6 of the specification, written as functions of the data
  they carry. The theorems below compare what the code writes with these layouts.
\<close>

text \<open>
  AX.25 address field: "6 bytes of space-padded, left-shifted-by-one callsign characters,
  followed by 1 byte = \<^verbatim>\<open>(ssid << 1) | 0b01100000 | last_address_bit\<close>".
\<close>

definition addr_char :: "string \<Rightarrow> nat \<Rightarrow> u8" where
  "addr_char callsign i =
     push_bit 1 (of_char (if i < length callsign then callsign ! i else CHR '' ''))"

definition address_field :: "string \<Rightarrow> u8 \<Rightarrow> bool \<Rightarrow> u8 list" where
  "address_field callsign s is_last =
     map (addr_char callsign) [0..<6] @ [push_bit 1 s OR 0x60 OR (if is_last then 1 else 0)]"

text \<open>
  AX.25 UI-frame: \<^verbatim>\<open>dest_addr(7) | src_addr(7) | 0x03 | 0xF0 | payload | fcs_lo | fcs_hi\<close>,
  the FCS computed over every byte before it.
\<close>

definition ui_frame :: "ax25_address_t \<Rightarrow> ax25_address_t \<Rightarrow> u8 list \<Rightarrow> u8 list" where
  "ui_frame dest src payload =
     (let body = address_field (call dest) (ssid dest) False
                 @ address_field (call src) (ssid src) True
                 @ [0x03, 0xF0] @ payload;
          fcs = crc_bytes body 0xFFFF XOR 0xFFFF
      in body @ [ucast (fcs AND 0xFF), ucast (drop_bit 8 fcs AND 0xFF)])"

text \<open>FX.25 block: \<^verbatim>\<open>tag(8) | data(223, zero-padded AX.25 frame) | parity(32)\<close>.\<close>

definition fx25_block :: "fx25_encoder_t \<Rightarrow> u8 list \<Rightarrow> u8 list" where
  "fx25_block encoder frame =
     (let data = frame @ replicate (223 - length frame) 0
      in CORR_TAG @ data @ map (rs_handle encoder data) [0..<32])"

text \<open>
  KISS frame: \<^verbatim>\<open>0xC0 | 0x00 | escaped(block) | 0xC0\<close>, "each 0xC0 is replaced by the two-byte
  sequence (0xDB, 0xDC); each 0xDB is replaced by (0xDB, 0xDD); all other bytes pass
  through unchanged".
\<close>

definition kiss_escape :: "u8 \<Rightarrow> u8 list" where
  "kiss_escape b =
     (if b = 0xC0 then [0xDB, 0xDC] else if b = 0xDB then [0xDB, 0xDD] else [b])"

definition kiss_escaped :: "u8 list \<Rightarrow> u8 list" where
  "kiss_escaped bs = concat (map kiss_escape bs)"

definition kiss_frame :: "u8 list \<Rightarrow> u8 list" where
  "kiss_frame bs = [0xC0, 0x00] @ kiss_escaped bs @ [0xC0]"

text \<open>One packet of the output: the KISS frame of the FX.25 block of the UI-frame of a chunk.\<close>

definition packet ::
  "fx25_encoder_t \<Rightarrow> ax25_address_t \<Rightarrow> ax25_address_t \<Rightarrow> u8 list \<Rightarrow> u8 list" where
  "packet encoder dest src chunk = kiss_frame (fx25_block encoder (ui_frame dest src chunk))"

text \<open>
  The source only transmits and has no KISS decoder. \<open>kiss_unescape\<close> is the inverse of the
  escaping that the round-trip law asks for: it undoes the two substitutions and rejects a
  body with a bare frame delimiter or an escape byte that starts neither substitution.
\<close>

fun kiss_unescape :: "u8 list \<Rightarrow> u8 list option" where
  "kiss_unescape [] = Some []"
| "kiss_unescape [b] = (if b = 0xC0 \<or> b = 0xDB then None else Some [b])"
| "kiss_unescape (b # t # r) =
     (if b = 0xC0 then None
      else if b = 0xDB then
        (if t = 0xDC then map_option ((#) 0xC0) (kiss_unescape r)
         else if t = 0xDD then map_option ((#) 0xDB) (kiss_unescape r)
         else None)
      else map_option ((#) b) (kiss_unescape (t # r)))"

text \<open>The arrays of \<^verbatim>\<open>main\<close>: \<^verbatim>\<open>payload_buffer[MAX_PAYLOAD]\<close>, \<^verbatim>\<open>ax25_buffer[512]\<close>, \<^verbatim>\<open>fx25_buffer[512]\<close>.\<close>

definition buffers_ok :: "driver_state \<Rightarrow> bool" where
  "buffers_ok s \<longleftrightarrow>
     length (payload_buffer s) = 150 \<and> length (ax25_buffer s) = 512
     \<and> length (fx25_buffer s) = 512"

section \<open>Properties of the stages\<close>

subsection \<open>Bits of the address bytes\<close>

lemma lt8: "(k::nat) < 8 \<longleftrightarrow> k \<in> {7, 6, 5, 4, 3, 2, 1, 0}"
  by (simp only: insert_iff empty_iff) arith

lemma bit_shl1:
  "bit (push_bit 1 (a :: 'a::len word)) n \<longleftrightarrow> 0 < n \<and> n < LENGTH('a) \<and> bit a (n - 1)"
  by (auto simp only: bit_push_bit_iff possible_bit_word)

lemma trunc_shl1: "(ucast (push_bit 1 (ucast (b :: u8) :: u32)) :: u8) = push_bit 1 b"
  by (rule bit_word_eqI) (simp only: bit_shl1 bit_ucast_iff, auto)

lemma ssid_byte_u8:
  "(ucast (push_bit 1 (ucast (s :: u8) :: u32) OR 0x60 OR (if l \<noteq> (0::int) then 1 else 0)) :: u8)
     = push_bit 1 s OR 0x60 OR (if l \<noteq> 0 then 1 else 0)"
  apply (rule bit_word_eqI)
  apply (simp only: bit_shl1 bit_ucast_iff bit_or_iff)
  apply (auto simp: lt8 simp del: push_bit_numeral push_bit_Suc)
  done

lemma ssid_mask: "push_bit 1 (s :: u8) OR 0x60 = push_bit 1 (s AND 0x4F) OR 0x60"
  apply (rule bit_word_eqI)
  apply (simp only: bit_shl1 bit_or_iff bit_and_iff)
  apply (auto simp: lt8)
  done

lemma ssid_mask4:
  "\<not> bit s 6 \<Longrightarrow> push_bit 1 (s :: u8) OR 0x60 = push_bit 1 (s AND 0x0F) OR 0x60"
  apply (rule bit_word_eqI)
  apply (simp only: bit_shl1 bit_or_iff bit_and_iff)
  apply (auto simp: lt8)
  done

lemma ssid_bit7:
  "bit (push_bit 1 (s :: u8) OR 0x60 OR (if l then 1 else 0)) 7 \<longleftrightarrow> bit s 6"
  apply (simp only: bit_shl1 bit_or_iff)
  apply (auto split: if_splits)
  done

lemma address_field_cong:
  assumes h: "push_bit 1 s OR 0x60 = push_bit 1 s' OR (0x60 :: u8)"
  shows "address_field c s l = address_field c s' l"
proof -
  have "push_bit 1 s OR 0x60 OR x = push_bit 1 s' OR 0x60 OR x" for x :: u8
    using arg_cong[OF h, of "\<lambda>v. v OR x"] by (simp only: or.assoc)
  then show ?thesis
    by (simp only: address_field_def)
qed

lemma length_address_field: "length (address_field c s l) = 7"
  by (simp add: address_field_def)

subsection \<open>The address encoder writes the address field\<close>

lemma encode_address_loop_eq:
  "i \<le> 6 \<Longrightarrow> 6 \<le> length out \<Longrightarrow>
   encode_address_loop c out i = take i out @ map (addr_char c) [i..<6] @ drop 6 out"
proof (induction c out i rule: encode_address_loop.induct)
  case (1 c out i)
  show ?case
  proof (cases "i < 6")
    case True
    let ?v = "ucast (if i < length c
                     then push_bit 1 (ucast (of_char (c ! i) :: u8) :: u32)
                     else push_bit 1 (ucast (of_char CHR '' '' :: u8) :: u32)) :: u8"
    have v: "?v = addr_char c i"
      by (simp only: addr_char_def trunc_shl1 if_distrib[of ucast]
            if_distrib[of "push_bit 1"] if_distrib[of of_char])
    have "encode_address_loop c out i = encode_address_loop c (out[i := ?v]) (i + 1)"
      using True by (subst encode_address_loop.simps) simp
    also have "\<dots> = take (i + 1) (out[i := ?v]) @ map (addr_char c) [i + 1..<6]
                      @ drop 6 (out[i := ?v])"
      using True "1.prems" by (intro "1.IH") simp_all
    also have "take (i + 1) (out[i := ?v]) = take i out @ [addr_char c i]"
      using True "1.prems" by (simp add: take_Suc_conv_app_nth v del: push_bit_numeral)
    also have "drop 6 (out[i := ?v]) = drop 6 out"
      using True by simp
    finally show ?thesis
      using True by (simp add: upt_conv_Cons)
  next
    case False
    with "1.prems" have "i = 6" by simp
    then show ?thesis
      by (subst encode_address_loop.simps) simp
  qed
qed

lemma encode_address_eq:
  assumes "7 \<le> length out"
  shows "encode_address c s out l = Some (address_field c s (l \<noteq> 0) @ drop 7 out)"
proof -
  let ?v = "ucast (push_bit 1 (ucast s :: u32) OR 0x60 OR (if l \<noteq> 0 then 1 else 0)) :: u8"
  have loop: "encode_address_loop c out 0 = map (addr_char c) [0..<6] @ drop 6 out"
    using assms by (subst encode_address_loop_eq) simp_all
  have d: "drop 6 out = out ! 6 # drop 7 out"
    using assms Cons_nth_drop_Suc[of 6 out] by simp
  have "(encode_address_loop c out 0)[6 := ?v] = map (addr_char c) [0..<6] @ ?v # drop 7 out"
    unfolding loop d by (simp add: list_update_append del: upt_Suc)
  moreover have "?v = push_bit 1 s OR 0x60 OR (if l \<noteq> 0 then 1 else 0)"
    by (rule ssid_byte_u8)
  ultimately show ?thesis
    using assms by (simp add: encode_address_def address_field_def del: upt_Suc push_bit_numeral)
qed

subsection \<open>The framer writes the UI-frame\<close>

lemma store_append:
  "0 \<le> i \<Longrightarrow> length pre = nat i \<Longrightarrow> store (pre @ x # rest) i v = Some (pre @ v # rest)"
  by (simp add: store_def list_update_append)

lemma store_eq:
  "0 \<le> i \<Longrightarrow> nat i < length a \<Longrightarrow>
   store a i v = Some (take (nat i) a @ v # drop (nat i + 1) a)"
  by (simp add: store_def upd_conv_take_nth_drop)

lemma drop_nth_cons: "k < length xs \<Longrightarrow> drop k xs = xs ! k # drop (k + 1) xs"
  by (simp add: Cons_nth_drop_Suc)

lemma at_offset_0: "at_offset a 0 f = f a"
  by (cases "f a") (simp_all add: at_offset_def)

lemma at_offset_append:
  "0 \<le> pos \<Longrightarrow> length pre = nat pos \<Longrightarrow>
   at_offset (pre @ rest) pos f = map_option (\<lambda>r. pre @ r) (f rest)"
  by (simp add: at_offset_def)

lemma calculate_crc_eq:
  "nat len \<le> length data \<Longrightarrow>
   calculate_crc data len = Some (crc_bytes (take (nat len) data) 0xFFFF XOR 0xFFFF)"
  by (simp add: calculate_crc_def)

lemma length_ui_frame: "length (ui_frame dest src payload) = length payload + 18"
  by (simp add: ui_frame_def Let_def length_address_field)

lemma ax25_generate_ui_frame_eq:
  assumes n: "0 \<le> n" and p: "nat n \<le> length payload" and b: "nat n + 18 \<le> length fb"
  shows "ax25_generate_ui_frame fb dest src payload n =
           Some (n + 18, ui_frame dest src (take (nat n) payload) @ drop (nat n + 18) fb)"
proof -
  define A1 where "A1 = address_field (call dest) (ssid dest) False"
  define A2 where "A2 = address_field (call src) (ssid src) True"
  define P where "P = take (nat n) payload"
  define body where "body = A1 @ A2 @ [0x03, 0xF0] @ P"
  define fcs where "fcs = crc_bytes body 0xFFFF XOR 0xFFFF"
  have lA: "length A1 = 7" "length A2 = 7"
    by (simp_all add: A1_def A2_def length_address_field)
  have lP: "length P = nat n"
    using p by (simp add: P_def)
  have lbody: "length body = nat n + 16"
    by (simp add: body_def lA lP)
  have s1: "at_offset fb 0 (\<lambda>out. encode_address (call dest) (ssid dest) out 0)
              = Some (A1 @ drop 7 fb)"
    using b by (simp add: at_offset_0 encode_address_eq A1_def)
  have s2: "at_offset (A1 @ drop 7 fb) 7 (\<lambda>out. encode_address (call src) (ssid src) out 1)
              = Some (A1 @ A2 @ drop 14 fb)"
    using b by (simp add: at_offset_append lA encode_address_eq A2_def)
  have s3: "store (A1 @ A2 @ drop 14 fb) 14 AX25_CONTROL = Some (A1 @ A2 @ 0x03 # drop 15 fb)"
    using b by (simp add: store_eq lA AX25_CONTROL_def)
  have s4: "store (A1 @ A2 @ 0x03 # drop 15 fb) 15 PID_NOL3
              = Some (A1 @ A2 @ 0x03 # 0xF0 # drop 16 fb)"
    using b by (simp add: store_eq lA PID_NOL3_def)
  have s5: "memcpy (A1 @ A2 @ 0x03 # 0xF0 # drop 16 fb) 16 payload n
              = Some (body @ drop (nat n + 16) fb)"
    using b n p by (simp add: memcpy_def lA body_def P_def add.commute)
  have s6: "calculate_crc (body @ drop (nat n + 16) fb) (16 + n) = Some fcs"
    using b n by (simp add: calculate_crc_eq lbody fcs_def nat_add_distrib)
  have d16: "drop (nat n + 16) fb = fb ! (nat n + 16) # drop (nat n + 17) fb"
    using b drop_nth_cons[of "nat n + 16" fb] by (simp only: add.assoc) simp
  have d17: "drop (nat n + 17) fb = fb ! (nat n + 17) # drop (nat n + 18) fb"
    using b drop_nth_cons[of "nat n + 17" fb] by (simp only: add.assoc) simp
  have s7: "store (body @ drop (nat n + 16) fb) (16 + n) v
              = Some (body @ v # drop (nat n + 17) fb)" for v
    unfolding d16 using n by (intro store_append) (simp_all add: lbody)
  have s8: "store (body @ v # drop (nat n + 17) fb) (17 + n) w
              = Some (body @ v # w # drop (nat n + 18) fb)" for v w
    unfolding d17
    using n store_append[of "17 + n" "body @ [v]" "fb ! (nat n + 17)" "drop (nat n + 18) fb" w]
    by (simp add: lbody)
  have u: "ui_frame dest src P = body @ [ucast (fcs AND 0xFF), ucast (drop_bit 8 fcs AND 0xFF)]"
    by (simp add: ui_frame_def Let_def body_def fcs_def A1_def A2_def)
  show ?thesis
    unfolding ax25_generate_ui_frame_def Let_def
    by (simp add: s1 s2 s3 s4 s5 s6 s7 s8 u flip: P_def)
qed

lemma ax25_generate_ui_frame_result:
  "ax25_generate_ui_frame fb dest src payload n = Some (r, fb') \<Longrightarrow> r = n + 18 \<and> 0 \<le> n"
  by (auto simp: ax25_generate_ui_frame_def Let_def memcpy_def
        split: Option.bind_splits if_splits)

subsection \<open>The FEC encoder writes the FX.25 block\<close>

lemma length_CORR_TAG: "length CORR_TAG = 8"
  by (simp add: CORR_TAG_def)

lemma length_fx25_block: "length frame \<le> 223 \<Longrightarrow> length (fx25_block encoder frame) = 263"
  by (simp add: fx25_block_def Let_def length_CORR_TAG)

lemma fx25_encode_frame_eq:
  assumes n: "0 \<le> n" "n \<le> 223" and f: "nat n \<le> length frame" and b: "263 \<le> length out"
  shows "fx25_encode_frame encoder frame n out =
           Some (263, fx25_block encoder (take (nat n) frame) @ drop 263 out)"
proof -
  define F where "F = take (nat n) frame"
  define data where "data = F @ replicate (223 - length F) 0"
  define cw where "cw = data @ map (rs_handle encoder data) [0..<32]"
  have lF: "length F = nat n"
    using f by (simp add: F_def)
  have ldata: "length data = 223"
    using n by (simp add: data_def lF)
  have lcw: "length cw = 255"
    by (simp add: cw_def ldata)
  have s1: "memcpy out 0 CORR_TAG 8 = Some (CORR_TAG @ drop 8 out)"
    using b by (simp add: memcpy_def length_CORR_TAG)
  have s2: "memcpy (memset 0 255) 0 frame n = Some (F @ replicate (255 - nat n) 0)"
    using n f by (simp add: memcpy_def memset_def F_def)
  have "take 223 (F @ replicate (255 - nat n) 0) = data"
    using n by (simp add: data_def lF)
  then have s3: "encode_rs_char (rs_handle encoder) (F @ replicate (255 - nat n) 0) = cw"
    by (simp only: encode_rs_char_def cw_def)
  have s4: "memcpy (CORR_TAG @ drop 8 out) 8 cw 255 = Some (CORR_TAG @ cw @ drop 263 out)"
    using b by (simp add: memcpy_def length_CORR_TAG lcw)
  have blk: "fx25_block encoder F = CORR_TAG @ cw"
    by (simp add: fx25_block_def Let_def cw_def data_def)
  have "\<not> n > FX25_K"
    using n by (simp add: FX25_K_def)
  then show ?thesis
    unfolding fx25_encode_frame_def Let_def
    by (simp add: s1 s2 s3 s4 blk FX25_N_def flip: F_def)
qed

subsection \<open>The KISS writer appends the KISS frame\<close>

lemma kiss_loop_eq: "kiss_loop stream bs = stream @ kiss_escaped bs"
  by (induction bs arbitrary: stream)
     (simp_all add: kiss_escaped_def kiss_escape_def fputc_def
        KISS_FEND_def KISS_FESC_def KISS_TFEND_def KISS_TFESC_def)

lemma write_kiss_frame_eq:
  "nat n \<le> length frame \<Longrightarrow>
   write_kiss_frame stream frame n = Some (stream @ kiss_frame (take (nat n) frame))"
  by (simp add: write_kiss_frame_def kiss_loop_eq kiss_frame_def fputc_def
        KISS_FEND_def KISS_CMD_DATA_def)

lemma kiss_unescape_plain:
  "b \<noteq> 0xC0 \<Longrightarrow> b \<noteq> 0xDB \<Longrightarrow>
   kiss_unescape (b # bs) = map_option ((#) b) (kiss_unescape bs)"
  by (cases bs) simp_all

lemma kiss_unescape_escaped: "kiss_unescape (kiss_escaped x) = Some x"
proof (induction x)
  case Nil
  show ?case by (simp add: kiss_escaped_def)
next
  case (Cons b bs)
  have e: "kiss_escaped (b # bs) = kiss_escape b @ kiss_escaped bs"
    by (simp add: kiss_escaped_def)
  show ?case
  proof (cases "b = 0xC0 \<or> b = 0xDB")
    case True
    then show ?thesis
      using Cons.IH by (auto simp: e kiss_escape_def)
  next
    case False
    then show ?thesis
      using Cons.IH by (simp add: e kiss_escape_def kiss_unescape_plain)
  qed
qed

lemma kiss_escaped_unescape: "kiss_unescape bs = Some x \<Longrightarrow> kiss_escaped x = bs"
proof (induction bs arbitrary: x rule: kiss_unescape.induct)
  case 1
  then show ?case by (simp add: kiss_escaped_def)
next
  case (2 b)
  then show ?case by (auto simp: kiss_escaped_def kiss_escape_def split: if_splits)
next
  case (3 b t r)
  show ?case
  proof (cases "b = 0xDB")
    case True
    with "3.prems" obtain y where y: "kiss_unescape r = Some y"
      and x: "(t = 0xDC \<and> x = 0xC0 # y) \<or> (t = 0xDD \<and> x = 0xDB # y)"
      by (auto split: if_splits)
    from x y True "3.IH"(1,2)[of y] show ?thesis
      by (auto simp: kiss_escaped_def kiss_escape_def)
  next
    case False
    with "3.prems" have b: "b \<noteq> 0xC0"
      and "\<exists>y. kiss_unescape (t # r) = Some y \<and> x = b # y"
      by (auto split: if_splits)
    then obtain y where y: "kiss_unescape (t # r) = Some y" "x = b # y"
      by blast
    from "3.IH"(3)[OF b False y(1)] y(2) b False show ?thesis
      by (simp add: kiss_escaped_def kiss_escape_def)
  qed
qed

lemma FEND_notin_escaped: "0xC0 \<notin> set (kiss_escaped x)"
  by (induction x) (auto simp: kiss_escaped_def kiss_escape_def)

subsection \<open>The loop emits one packet for each chunk\<close>

lemma loop_body_eq:
  assumes n: "0 < n" "n \<le> 205"
    and p: "nat n \<le> length (payload_buffer s)"
    and a: "nat n + 18 \<le> length (ax25_buffer s)"
    and f: "263 \<le> length (fx25_buffer s)"
  shows "loop_body encoder dest src n s =
           Some (s\<lparr>ax25_buffer := ui_frame dest src (take (nat n) (payload_buffer s))
                                      @ drop (nat n + 18) (ax25_buffer s),
                   fx25_buffer :=
                     fx25_block encoder (ui_frame dest src (take (nat n) (payload_buffer s)))
                     @ drop 263 (fx25_buffer s),
                   output_file := output_file s
                                    @ packet encoder dest src (take (nat n) (payload_buffer s)),
                   packet_count := packet_count s + 1\<rparr>)"
proof -
  define U where "U = ui_frame dest src (take (nat n) (payload_buffer s))"
  have lU: "length U = nat n + 18"
    using p by (simp add: U_def length_ui_frame)
  have s1: "ax25_generate_ui_frame (ax25_buffer s) dest src (payload_buffer s) n
              = Some (n + 18, U @ drop (nat n + 18) (ax25_buffer s))"
    using n p a by (simp add: ax25_generate_ui_frame_eq U_def)
  have t: "take (nat (n + 18)) (U @ drop (nat n + 18) (ax25_buffer s)) = U"
    using n by (simp add: lU nat_add_distrib)
  have s2: "fx25_encode_frame encoder (U @ drop (nat n + 18) (ax25_buffer s)) (n + 18)
              (fx25_buffer s)
              = Some (263, fx25_block encoder U @ drop 263 (fx25_buffer s))"
    using n f
      fx25_encode_frame_eq[of "n + 18" "U @ drop (nat n + 18) (ax25_buffer s)"
        "fx25_buffer s" encoder]
    by (simp add: t lU nat_add_distrib)
  have lB: "length (fx25_block encoder U) = 263"
    using n by (simp add: length_fx25_block lU nat_le_iff)
  have s3: "write_kiss_frame out (fx25_block encoder U @ drop 263 (fx25_buffer s)) 263
              = Some (out @ packet encoder dest src (take (nat n) (payload_buffer s)))" for out
    unfolding packet_def U_def[symmetric] by (simp add: write_kiss_frame_eq lB)
  show ?thesis
    unfolding loop_body_def Let_def using n
    by (simp add: s1 s2 s3 flip: U_def)
qed

lemma main_loop_done:
  "input_file s = [] \<Longrightarrow> main_loop encoder dest src s = Some s"
  by (subst main_loop.simps) (simp add: fread_def MAX_PAYLOAD_def)

lemma main_loop_step:
  assumes ok: "buffers_ok s" and ne: "input_file s \<noteq> []"
  shows "\<exists>s1. main_loop encoder dest src s = main_loop encoder dest src s1
              \<and> buffers_ok s1
              \<and> input_file s1 = drop 150 (input_file s)
              \<and> output_file s1
                  = output_file s @ packet encoder dest src (take 150 (input_file s))
              \<and> packet_count s1 = packet_count s + 1"
proof -
  define k where "k = min 150 (length (input_file s))"
  define s0 where
    "s0 = s\<lparr>payload_buffer := take k (input_file s) @ drop k (payload_buffer s),
            input_file := drop k (input_file s)\<rparr>"
  have k: "0 < k" "k \<le> 150"
    using ne by (simp_all add: k_def)
  have fr: "fread (payload_buffer s) MAX_PAYLOAD (input_file s)
              = Some (int k, take k (input_file s) @ drop k (payload_buffer s),
                      drop k (input_file s))"
    using ok by (simp add: fread_def MAX_PAYLOAD_def Let_def k_def buffers_ok_def)
  have dk: "drop k (input_file s) = drop 150 (input_file s)"
    by (simp add: k_def min_def)
  define c where "c = take 150 (input_file s)"
  have lc: "length c = k"
    by (simp add: c_def k_def min.commute)
  have pb0: "take (nat (int k)) (payload_buffer s0) = c"
    using k by (simp add: s0_def k_def min_def c_def)
  have lpb0: "length (payload_buffer s0) = 150"
    using ok k by (simp add: s0_def buffers_ok_def k_def)
  obtain s1 where lb: "loop_body encoder dest src (int k) s0 = Some s1"
    and s1: "s1 = s0\<lparr>ax25_buffer :=
                       ui_frame dest src (take (nat (int k)) (payload_buffer s0))
                       @ drop (nat (int k) + 18) (ax25_buffer s0),
                     fx25_buffer :=
                       fx25_block encoder
                         (ui_frame dest src (take (nat (int k)) (payload_buffer s0)))
                       @ drop 263 (fx25_buffer s0),
                     output_file :=
                       output_file s0
                       @ packet encoder dest src (take (nat (int k)) (payload_buffer s0)),
                     packet_count := packet_count s0 + 1\<rparr>"
    using loop_body_eq[of "int k" s0 encoder dest src] ok k lpb0
    by (simp add: buffers_ok_def s0_def)
  have "main_loop encoder dest src s = main_loop encoder dest src s1"
    using k by (subst main_loop.simps) (simp add: fr lb flip: s0_def)
  moreover have "buffers_ok s1"
    using ok k lpb0 unfolding s1 pb0
    by (simp add: buffers_ok_def length_ui_frame length_fx25_block s0_def lc)
  moreover have "input_file s1 = drop 150 (input_file s)"
    by (simp add: s1 s0_def dk)
  moreover have "output_file s1
                   = output_file s @ packet encoder dest src (take 150 (input_file s))"
    unfolding s1 pb0 by (simp add: s0_def c_def)
  moreover have "packet_count s1 = packet_count s + 1"
    by (simp add: s1 s0_def)
  ultimately show ?thesis by blast
qed

lemma main_loop_three_chunks:
  assumes ok: "buffers_ok s" and len: "length (input_file s) = 301"
  shows "\<exists>s'. main_loop encoder dest src s = Some s'
              \<and> packet_count s' = packet_count s + 3
              \<and> input_file s' = []
              \<and> output_file s' = output_file s
                    @ packet encoder dest src (take 150 (input_file s))
                    @ packet encoder dest src (take 150 (drop 150 (input_file s)))
                    @ packet encoder dest src (drop 300 (input_file s))"
proof -
  from len have "input_file s \<noteq> []" by auto
  from main_loop_step[OF ok this, of encoder dest src] obtain s1 where
    1: "main_loop encoder dest src s = main_loop encoder dest src s1" "buffers_ok s1"
       "input_file s1 = drop 150 (input_file s)"
       "output_file s1 = output_file s @ packet encoder dest src (take 150 (input_file s))"
       "packet_count s1 = packet_count s + 1"
    by blast
  from len 1(3) have "input_file s1 \<noteq> []" by auto
  from main_loop_step[OF 1(2) this, of encoder dest src] obtain s2 where
    2: "main_loop encoder dest src s1 = main_loop encoder dest src s2" "buffers_ok s2"
       "input_file s2 = drop 150 (input_file s1)"
       "output_file s2 = output_file s1 @ packet encoder dest src (take 150 (input_file s1))"
       "packet_count s2 = packet_count s1 + 1"
    by blast
  from len 1(3) 2(3) have l2: "length (input_file s2) = 1" by simp
  then have "input_file s2 \<noteq> []" by auto
  from main_loop_step[OF 2(2) this, of encoder dest src] obtain s3 where
    3: "main_loop encoder dest src s2 = main_loop encoder dest src s3" "buffers_ok s3"
       "input_file s3 = drop 150 (input_file s2)"
       "output_file s3 = output_file s2 @ packet encoder dest src (take 150 (input_file s2))"
       "packet_count s3 = packet_count s2 + 1"
    by blast
  from l2 3(3) have e: "input_file s3 = []" by simp
  have "main_loop encoder dest src s = Some s3"
    by (simp only: 1(1) 2(1) 3(1) main_loop_done[OF e])
  moreover have "take 150 (input_file s2) = drop 300 (input_file s)"
    using l2 by (simp add: 2(3) 1(3))
  ultimately show ?thesis
    using e by (intro exI[of _ s3]) (simp add: 1 2 3)
qed

section \<open>The claims\<close>

text \<open>
  C1. For every AX.25 frame of at most 223 bytes (and an output array with room for the
  263 bytes), \<open>fx25_encode_frame\<close> succeeds and returns 263; output bytes 0 to 7 are the
  synchronization tag \<^verbatim>\<open>CC 8F 8A E4 85 E2 98 01\<close>, the bytes from 8 on are the input frame,
  the rest of the 223-byte data region (through output byte 230) is zero, and the 32
  parity bytes of the encoder follow. The output array is unchanged from byte 263 on.
\<close>

theorem fx25_encode_frame_layout:
  assumes "length frame \<le> 223" and "263 \<le> length out"
  shows "fx25_encode_frame encoder frame (int (length frame)) out =
           Some (263,
                 [0xCC, 0x8F, 0x8A, 0xE4, 0x85, 0xE2, 0x98, 0x01]
                 @ frame @ replicate (223 - length frame) 0
                 @ map (rs_handle encoder (frame @ replicate (223 - length frame) 0)) [0..<32]
                 @ drop 263 out)"
  using assms fx25_encode_frame_eq[of "int (length frame)" frame out encoder]
  by (simp add: fx25_block_def Let_def CORR_TAG_def)

theorem fx25_encode_frame_layout_witness:
  "fx25_encode_frame \<lparr>rs_handle = (\<lambda>d i. 0)\<rparr> [1, 2, 3] 3 (replicate 263 0xFF) =
     Some (263, [0xCC, 0x8F, 0x8A, 0xE4, 0x85, 0xE2, 0x98, 0x01] @ [1, 2, 3]
                @ replicate 220 0 @ replicate 32 0)"
  using fx25_encode_frame_layout[of "[1, 2, 3]" "replicate 263 0xFF" "\<lparr>rs_handle = (\<lambda>d i. 0)\<rparr>"]
  by (simp add: map_replicate_const)

text \<open>
  C2. For every input byte sequence, \<open>write_kiss_frame\<close> appends to the stream exactly:
  the start delimiter \<^verbatim>\<open>0xC0\<close>, the command byte \<^verbatim>\<open>0x00\<close>, the body in which each input
  byte \<^verbatim>\<open>0xC0\<close> is replaced by \<^verbatim>\<open>0xDB 0xDC\<close>, each \<^verbatim>\<open>0xDB\<close> by \<^verbatim>\<open>0xDB 0xDD\<close> and every
  other byte is passed through, then the end delimiter \<^verbatim>\<open>0xC0\<close>.
\<close>

theorem write_kiss_frame_escapes:
  "write_kiss_frame stream frame (int (length frame)) =
     Some (stream @ [0xC0, 0x00] @ concat (map kiss_escape frame) @ [0xC0])"
  by (simp add: write_kiss_frame_eq kiss_frame_def kiss_escaped_def)

text \<open>
  C3, as the code has it. \<open>calculate_crc\<close> (initial register \<^verbatim>\<open>0xFFFF\<close>, polynomial
  \<^verbatim>\<open>0x1021\<close> bit by bit from the most significant bit, final XOR with \<^verbatim>\<open>0xFFFF\<close>) returns
  \<^verbatim>\<open>0xD64E\<close> for the 9 ASCII bytes of "123456789". The value \<^verbatim>\<open>0x29B1\<close> is the register
  before the final XOR, not the result.
\<close>

theorem calculate_crc_check_value:
  "calculate_crc (map of_char ''123456789'') 9 = Some 0xD64E
   \<and> crc_bytes (map of_char ''123456789'') 0xFFFF = 0x29B1"
  by code_simp

text \<open>C3 as stated fails: the result for "123456789" is not \<^verbatim>\<open>0x29B1\<close>.\<close>

theorem calculate_crc_check_value_counterexample:
  "calculate_crc (map of_char ''123456789'') 9 \<noteq> Some 0x29B1"
  by code_simp

text \<open>
  C4, as the code has it. For every payload of 0 to 150 bytes (and a frame buffer with
  room for the frame), \<open>ax25_generate_ui_frame\<close> returns the payload length plus 18
  (14 address bytes, 2 control/PID bytes, 2 FCS bytes) and leaves the UI-frame of that
  length at the start of the frame buffer.
\<close>

theorem ax25_generate_ui_frame_length:
  assumes "length payload \<le> 150" and "length payload + 18 \<le> length fb"
  shows "ax25_generate_ui_frame fb dest src payload (int (length payload)) =
           Some (int (length payload) + 18,
                 ui_frame dest src payload @ drop (length payload + 18) fb)
         \<and> length (ui_frame dest src payload) = length payload + 18"
  using assms ax25_generate_ui_frame_eq[of "int (length payload)" payload fb dest src]
  by (simp add: length_ui_frame)

theorem ax25_generate_ui_frame_length_witness:
  "map_option fst
     (ax25_generate_ui_frame (replicate 512 0) \<lparr>call = ''DEST'', ssid = 0\<rparr>
        \<lparr>call = ''SRC'', ssid = 1\<rparr> [1, 2, 3] 3) = Some 21"
  using ax25_generate_ui_frame_length[of "[1, 2, 3]" "replicate 512 0"
          "\<lparr>call = ''DEST'', ssid = 0\<rparr>" "\<lparr>call = ''SRC'', ssid = 1\<rparr>"]
  by simp

text \<open>C4 as stated fails: an empty payload gives a frame of 18 bytes, not 16.\<close>

theorem ax25_generate_ui_frame_length_counterexample:
  "map_option fst
     (ax25_generate_ui_frame (replicate 512 0) \<lparr>call = ''DEST'', ssid = 0\<rparr>
        \<lparr>call = ''SRC'', ssid = 1\<rparr> [] 0) = Some 18"
  by (simp add: ax25_generate_ui_frame_eq)

text \<open>
  C5, as the code has it. \<open>ax25_generate_ui_frame\<close> has no payload ceiling and no error
  result: a payload of more than 150 bytes (that fits the frame buffer) is framed like any
  other, the result is the payload length plus 18, and no call returns 0.
\<close>

theorem ax25_generate_ui_frame_no_ceiling:
  assumes "150 < length payload" and "length payload + 18 \<le> length fb"
  shows "ax25_generate_ui_frame fb dest src payload (int (length payload)) =
           Some (int (length payload) + 18,
                 ui_frame dest src payload @ drop (length payload + 18) fb)
         \<and> (\<forall>n fb'. ax25_generate_ui_frame fb dest src payload n \<noteq> Some (0, fb'))"
proof
  show "ax25_generate_ui_frame fb dest src payload (int (length payload)) =
          Some (int (length payload) + 18,
                ui_frame dest src payload @ drop (length payload + 18) fb)"
    using assms ax25_generate_ui_frame_eq[of "int (length payload)" payload fb dest src]
    by simp
  show "\<forall>n fb'. ax25_generate_ui_frame fb dest src payload n \<noteq> Some (0, fb')"
    using ax25_generate_ui_frame_result[of fb dest src payload] by fastforce
qed

theorem ax25_generate_ui_frame_no_ceiling_witness:
  "map_option fst
     (ax25_generate_ui_frame (replicate 512 0) \<lparr>call = ''DEST'', ssid = 0\<rparr>
        \<lparr>call = ''SRC'', ssid = 1\<rparr> (replicate 200 0) 200) = Some 218"
  using ax25_generate_ui_frame_no_ceiling[of "replicate 200 0" "replicate 512 0"
          "\<lparr>call = ''DEST'', ssid = 0\<rparr>" "\<lparr>call = ''SRC'', ssid = 1\<rparr>"]
  by simp

text \<open>
  C5 as stated fails: for a payload of 151 bytes the result is a frame of 169 bytes, not
  an error.
\<close>

theorem ax25_generate_ui_frame_no_ceiling_counterexample:
  "map_option fst
     (ax25_generate_ui_frame (replicate 512 0) \<lparr>call = ''DEST'', ssid = 0\<rparr>
        \<lparr>call = ''SRC'', ssid = 1\<rparr> (replicate 151 0) 151) = Some 169"
  by (simp add: ax25_generate_ui_frame_eq)

text \<open>
  C6. For an input of exactly 301 bytes, a fresh output and the arrays of \<^verbatim>\<open>main\<close>, the
  loop reads chunks of up to 150 bytes, ends when a read returns zero bytes, and emits
  exactly 3 packets, for the chunks of 150, 150 and 1 bytes; the final packet count is 3.
\<close>

theorem main_loop_301_bytes:
  assumes "length (input_file s) = 301"
    and "length (payload_buffer s) = 150"
    and "length (ax25_buffer s) = 512"
    and "length (fx25_buffer s) = 512"
    and "output_file s = []"
    and "packet_count s = 0"
  shows "\<exists>s'. main_loop encoder dest src s = Some s'
              \<and> packet_count s' = 3
              \<and> input_file s' = []
              \<and> output_file s' =
                    packet encoder dest src (take 150 (input_file s))
                    @ packet encoder dest src (take 150 (drop 150 (input_file s)))
                    @ packet encoder dest src (drop 300 (input_file s))
              \<and> map length [take 150 (input_file s), take 150 (drop 150 (input_file s)),
                             drop 300 (input_file s)] = [150, 150, 1]"
proof -
  have "buffers_ok s"
    using assms by (simp add: buffers_ok_def)
  from main_loop_three_chunks[OF this assms(1), of encoder dest src] obtain s' where
    "main_loop encoder dest src s = Some s'" "packet_count s' = packet_count s + 3"
    "input_file s' = []"
    "output_file s' = output_file s
        @ packet encoder dest src (take 150 (input_file s))
        @ packet encoder dest src (take 150 (drop 150 (input_file s)))
        @ packet encoder dest src (drop 300 (input_file s))"
    by blast
  then show ?thesis
    using assms by simp
qed

theorem main_loop_301_bytes_witness:
  "map_option packet_count
     (main_loop \<lparr>rs_handle = (\<lambda>d i. 0)\<rparr> \<lparr>call = ''DEST'', ssid = 0\<rparr>
        \<lparr>call = ''SRC'', ssid = 1\<rparr>
        \<lparr>input_file = replicate 301 0x55, output_file = [],
         payload_buffer = replicate 150 0, ax25_buffer = replicate 512 0,
         fx25_buffer = replicate 512 0, packet_count = 0\<rparr>) = Some 3"
  using main_loop_301_bytes[of
          "\<lparr>input_file = replicate 301 0x55, output_file = [],
            payload_buffer = replicate 150 0, ax25_buffer = replicate 512 0,
            fx25_buffer = replicate 512 0, packet_count = 0\<rparr>"
          "\<lparr>rs_handle = (\<lambda>d i. 0)\<rparr>" "\<lparr>call = ''DEST'', ssid = 0\<rparr>"
          "\<lparr>call = ''SRC'', ssid = 1\<rparr>"]
  by auto

text \<open>
  C7. The KISS escaping is invertible. For every byte sequence \<open>x\<close>, the body that
  \<open>write_kiss_frame\<close> writes between the command byte and the end delimiter is
  \<open>kiss_escaped x\<close>; \<open>kiss_unescape\<close> gives \<open>x\<close> back from it; the body holds no delimiter
  \<^verbatim>\<open>0xC0\<close>; and every body that \<open>kiss_unescape\<close> accepts is the escaped form of what it
  returns, so escaping is a bijection between all byte sequences and the well-formed
  bodies.
\<close>

theorem kiss_round_trip:
  "write_kiss_frame stream x (int (length x)) =
     Some (stream @ [0xC0, 0x00] @ kiss_escaped x @ [0xC0])
   \<and> kiss_unescape (kiss_escaped x) = Some x
   \<and> 0xC0 \<notin> set (kiss_escaped x)
   \<and> (\<forall>body y. kiss_unescape body = Some y \<longrightarrow> kiss_escaped y = body)"
  by (simp add: write_kiss_frame_eq kiss_frame_def kiss_unescape_escaped FEND_notin_escaped
        kiss_escaped_unescape)

theorem kiss_round_trip_witness:
  "kiss_unescape (kiss_escaped [0xC0, 0x41, 0xDB]) = Some [0xC0, 0x41, 0xDB]
   \<and> kiss_unescape [0xDB, 0xDC, 0x41, 0xDB, 0xDD] = Some [0xC0, 0x41, 0xDB]
   \<and> kiss_escaped [0xC0, 0x41, 0xDB] = [0xDB, 0xDC, 0x41, 0xDB, 0xDD]"
  using kiss_round_trip[of "[]" "[0xC0, 0x41, 0xDB]"]
  by (simp add: kiss_escaped_def kiss_escape_def)

text \<open>
  C8. \<open>fx25_encode_frame\<close> returns the error result 0 if and only if the frame length
  exceeds 223.
\<close>

theorem fx25_encode_frame_fails_iff:
  "map_option fst (fx25_encode_frame encoder frame ax25_len out) = Some 0 \<longleftrightarrow> 223 < ax25_len"
  by (auto simp: fx25_encode_frame_def Let_def FX25_K_def FX25_N_def
        split: Option.bind_splits)

text \<open>
  C9, as the code has it. \<open>encode_address\<close> raises no error for any SSID, but it does not
  reduce the SSID to its low 4 bits. Bits 4 and 5 of the SSID fall on the reserved bits
  and bit 7 is shifted out of the byte, but bit 6 is shifted into bit 7 of the seventh
  byte: the output is the output for the SSID masked with \<^verbatim>\<open>0x4F\<close>, and it equals the
  output for the low 4 bits of the SSID exactly when bit 6 of the SSID is clear.
\<close>

theorem encode_address_ssid_bits:
  assumes "7 \<le> length out"
  shows "encode_address c s out l \<noteq> None
         \<and> encode_address c s out l = encode_address c (s AND 0x4F) out l
         \<and> (encode_address c s out l = encode_address c (s AND 0x0F) out l \<longleftrightarrow> \<not> bit s 6)"
proof (intro conjI)
  show "encode_address c s out l \<noteq> None"
    using assms by (simp add: encode_address_eq)
  have "address_field c s (l \<noteq> 0) = address_field c (s AND 0x4F) (l \<noteq> 0)"
    by (rule address_field_cong) (rule ssid_mask)
  then show "encode_address c s out l = encode_address c (s AND 0x4F) out l"
    using assms by (simp only: encode_address_eq)
  show "encode_address c s out l = encode_address c (s AND 0x0F) out l \<longleftrightarrow> \<not> bit s 6"
  proof
    assume "encode_address c s out l = encode_address c (s AND 0x0F) out l"
    then have "address_field c s (l \<noteq> 0) = address_field c (s AND 0x0F) (l \<noteq> 0)"
      using assms by (simp only: encode_address_eq) simp
    then have "push_bit 1 s OR 0x60 OR (if l \<noteq> 0 then 1 else 0)
               = push_bit 1 (s AND 0x0F) OR 0x60 OR (if l \<noteq> 0 then (1::u8) else 0)"
      by (simp only: address_field_def same_append_eq list.inject simp_thms)
    then have "bit s 6 \<longleftrightarrow> bit (s AND 0x0F) 6"
      by (simp only: flip: ssid_bit7[of _ "l \<noteq> 0"])
    then show "\<not> bit s 6"
      by (simp add: bit_and_iff)
  next
    assume "\<not> bit s 6"
    then have "push_bit 1 s OR 0x60 = push_bit 1 (s AND 0x0F) OR 0x60"
      by (rule ssid_mask4)
    then have "address_field c s (l \<noteq> 0) = address_field c (s AND 0x0F) (l \<noteq> 0)"
      by (rule address_field_cong)
    then show "encode_address c s out l = encode_address c (s AND 0x0F) out l"
      using assms by (simp only: encode_address_eq)
  qed
qed

theorem encode_address_ssid_bits_witness:
  "encode_address ''N0CALL'' 0x31 (replicate 7 0) 0 \<noteq> None
   \<and> encode_address ''N0CALL'' 0x31 (replicate 7 0) 0
       = encode_address ''N0CALL'' 0x01 (replicate 7 0) 0"
proof -
  have h: "7 \<le> length (replicate 7 (0 :: u8))"
    by simp
  have e: "(0x31 :: u8) AND 0x4F = 0x01"
    by simp
  show ?thesis
    using encode_address_ssid_bits[OF h, of "''N0CALL''" "0x31" 0] unfolding e by blast
qed

text \<open>
  C9 as stated fails: for SSID 64 the output differs from the output for its low 4 bits
  (which are 0).
\<close>

theorem encode_address_ssid_bits_counterexample:
  "encode_address ''N0CALL'' 64 (replicate 7 0) 0
     \<noteq> encode_address ''N0CALL'' (64 AND 0x0F) (replicate 7 0) 0"
  by code_simp

text \<open>
  C10. Whenever \<open>fx25_encode_frame\<close> is called with a frame length greater than 223, it
  returns 0 and the output array is unchanged.
\<close>

theorem fx25_encode_frame_error_atomic:
  "223 < ax25_len \<Longrightarrow> fx25_encode_frame encoder frame ax25_len out = Some (0, out)"
  by (simp add: fx25_encode_frame_def FX25_K_def)

theorem fx25_encode_frame_error_atomic_witness:
  "fx25_encode_frame \<lparr>rs_handle = (\<lambda>d i. 0)\<rparr> (replicate 224 0x41) 224 (replicate 512 0xEE)
     = Some (0, replicate 512 0xEE)"
  using fx25_encode_frame_error_atomic[of 224 "\<lparr>rs_handle = (\<lambda>d i. 0)\<rparr>"
          "replicate 224 0x41" "replicate 512 0xEE"]
  by simp

end
